theory Spec2Isabelle
  imports Main "HOL-Library.Word" "HOL-Library.Multiset"
begin

unbundle bit_operations_syntax

section \<open>The password digest: \<open>hashlib.sha256(password.encode()).hexdigest()\<close>\<close>

text \<open>
  \<open>hash_password\<close> (main.py, lines 65-66) calls the SHA-256 of Python's \<open>hashlib\<close>.
  The function is written out here as FIPS 180-4 defines it, on 32-bit words. A Python
  \<open>str\<close> is represented by the list of the bytes of its UTF-8 encoding (an Isabelle
  \<open>string\<close> is a list of 8-bit characters), so that \<open>encode\<close> only reads the
  characters as bytes, and concatenation of strings is concatenation of lists.
\<close>

type_synonym w32 = "32 word"

definition rotr :: "nat \<Rightarrow> w32 \<Rightarrow> w32" where
  "rotr n x = drop_bit n x OR push_bit (32 - n) x"

definition Ch :: "w32 \<Rightarrow> w32 \<Rightarrow> w32 \<Rightarrow> w32" where
  "Ch x y z = (x AND y) XOR (NOT x AND z)"

definition Maj :: "w32 \<Rightarrow> w32 \<Rightarrow> w32 \<Rightarrow> w32" where
  "Maj x y z = (x AND y) XOR (x AND z) XOR (y AND z)"

definition Sigma0 :: "w32 \<Rightarrow> w32" where
  "Sigma0 x = rotr 2 x XOR rotr 13 x XOR rotr 22 x"

definition Sigma1 :: "w32 \<Rightarrow> w32" where
  "Sigma1 x = rotr 6 x XOR rotr 11 x XOR rotr 25 x"

definition sigma0 :: "w32 \<Rightarrow> w32" where
  "sigma0 x = rotr 7 x XOR rotr 18 x XOR drop_bit 3 x"

definition sigma1 :: "w32 \<Rightarrow> w32" where
  "sigma1 x = rotr 17 x XOR rotr 19 x XOR drop_bit 10 x"

text \<open>
  The sixty-four round constants are the first 32 bits of the fractional parts of the
  cube roots of the first sixty-four primes (FIPS 180-4, section 4.2.2): for a prime
  \<open>p\<close>, the integer cube root of \<open>p * 2 ^ 96\<close>, reduced to 32 bits.
\<close>

definition is_prime :: "nat \<Rightarrow> bool" where
  "is_prime n \<longleftrightarrow> 1 < n \<and> list_all (\<lambda>k. n mod k \<noteq> 0) [2..<n]"

definition primes64 :: "nat list" where
  "primes64 = filter is_prime [2..<312]"

fun icbrt :: "nat \<Rightarrow> nat \<Rightarrow> nat \<Rightarrow> nat" where
  "icbrt 0 n r = r"
| "icbrt (Suc k) n r = icbrt k n (if (r + 2 ^ k) ^ 3 \<le> n then r + 2 ^ k else r)"

definition K256 :: "w32 list" where
  "K256 = map (\<lambda>p. of_nat (icbrt 36 (p * 2 ^ 96) 0)) primes64"

type_synonym sha_state = "w32 \<times> w32 \<times> w32 \<times> w32 \<times> w32 \<times> w32 \<times> w32 \<times> w32"

definition H256 :: sha_state where
  "H256 = (0x6a09e667, 0xbb67ae85, 0x3c6ef372, 0xa54ff53a,
           0x510e527f, 0x9b05688c, 0x1f83d9ab, 0x5be0cd19)"

definition be64 :: "64 word \<Rightarrow> 8 word list" where
  "be64 n = map (\<lambda>i. ucast (drop_bit (8 * i) n)) [7, 6, 5, 4, 3, 2, 1, 0]"

definition pad :: "8 word list \<Rightarrow> 8 word list" where
  "pad bs = bs @ [0x80] @ replicate ((119 - length bs mod 64) mod 64) 0
              @ be64 (of_nat (8 * length bs))"

fun be_words :: "nat \<Rightarrow> 8 word list \<Rightarrow> w32 list" where
  "be_words 0 bs = []"
| "be_words (Suc n) bs =
     (case take 4 bs of
        [b0, b1, b2, b3] \<Rightarrow>
          (push_bit 24 (ucast b0) OR push_bit 16 (ucast b1) OR push_bit 8 (ucast b2) OR ucast b3)
            # be_words n (drop 4 bs)
      | _ \<Rightarrow> [])"

fun schedule :: "nat \<Rightarrow> w32 list \<Rightarrow> w32 list" where
  "schedule 0 ws = ws"
| "schedule (Suc n) ws =
     (let t = length ws in
      schedule n (ws @ [sigma1 (ws ! (t - 2)) + ws ! (t - 7) + sigma0 (ws ! (t - 15)) + ws ! (t - 16)]))"

fun round256 :: "sha_state \<Rightarrow> w32 \<times> w32 \<Rightarrow> sha_state" where
  "round256 (a, b, c, d, e, f, g, h) (k, w) =
     (let T1 = h + Sigma1 e + Ch e f g + k + w;
          T2 = Sigma0 a + Maj a b c
      in (T1 + T2, a, b, c, d + T1, e, f, g))"

fun add_state :: "sha_state \<Rightarrow> sha_state \<Rightarrow> sha_state" where
  "add_state (a, b, c, d, e, f, g, h) (a', b', c', d', e', f', g', h') =
     (a + a', b + b', c + c', d + d', e + e', f + f', g + g', h + h')"

definition compress :: "sha_state \<Rightarrow> w32 list \<Rightarrow> sha_state" where
  "compress s blk = add_state s (foldl round256 s (zip K256 (schedule 48 blk)))"

fun blocks :: "nat \<Rightarrow> 8 word list \<Rightarrow> w32 list list" where
  "blocks 0 bs = []"
| "blocks (Suc n) bs = be_words 16 (take 64 bs) # blocks n (drop 64 bs)"

definition sha256 :: "8 word list \<Rightarrow> sha_state" where
  "sha256 bs = (let p = pad bs in foldl compress H256 (blocks (length p div 64) p))"

definition hexchars :: string where
  "hexchars = ''0123456789abcdef''"

definition hex32 :: "w32 \<Rightarrow> string" where
  "hex32 w = map (\<lambda>i. hexchars ! (unat (drop_bit (4 * i) w) mod 16)) [7, 6, 5, 4, 3, 2, 1, 0]"

fun hexdigest :: "sha_state \<Rightarrow> string" where
  "hexdigest (a, b, c, d, e, f, g, h) =
     hex32 a @ hex32 b @ hex32 c @ hex32 d @ hex32 e @ hex32 f @ hex32 g @ hex32 h"

definition encode :: "string \<Rightarrow> 8 word list" where
  "encode s = map of_char s"

definition hash_password :: "string \<Rightarrow> string" where
  "hash_password password = hexdigest (sha256 (encode password))"

section \<open>Data model\<close>

text \<open>
  The two MongoDB collections hold documents in insertion order. A document of
  \<open>users\<close> has the keys \<open>username\<close> and \<open>password\<close> (fields \<open>u_username\<close>,
  \<open>u_password\<close>); a document of \<open>chat_history\<close> has the keys \<open>role\<close>, \<open>text\<close>,
  \<open>timestamp\<close> and \<open>username\<close> (the field for \<open>text\<close> is \<open>msg_text\<close>). A point in
  time is an integer number of microseconds, as \<open>datetime.now()\<close> reads the clock. The
  \<open>username\<close> of a message is the value of \<open>st.session_state.username\<close>, which is
  \<open>None\<close> or a string.
\<close>

record user_data =
  u_username :: string
  u_password :: string

record message =
  role :: string
  msg_text :: string
  timestamp :: int
  username :: "string option"

record db =
  user_collection :: "user_data list"
  collection :: "message list"

text \<open>
  An entry of \<open>st.session_state.messages\<close> is a dictionary with the keys \<open>role\<close> and
  \<open>text\<close> and, for the debug entry only, \<open>retrieved\<close>.
\<close>

record view_message =
  v_role :: string
  v_text :: string
  retrieved :: "string list option"

text \<open>
  The conversation handle returned by \<open>model.start_chat(history=[])\<close> belongs to the
  Gemini client library. It is represented by what the application does with it: the list
  of the prompts passed to \<open>send_message\<close> on this handle, oldest first.
\<close>

type_synonym chat = "string list"

text \<open>
  \<open>st.session_state\<close> is a dictionary kept per browser connection. A key that is not
  in the dictionary is \<open>None\<close> in \<open>logged_in\<close>, \<open>chat_session\<close> and \<open>messages\<close>;
  \<open>ss_username\<close> is the value under the key \<open>username\<close>, Python's \<open>None\<close> included.
\<close>

record session_state =
  logged_in :: "bool option"
  ss_username :: "string option"
  chat_session :: "chat option"
  messages :: "view_message list option"

datatype notice = Error string | Success string | Warning string

datatype py_error = AttributeError

section \<open>Credential store operations (main.py, lines 69-78)\<close>

definition register_user :: "string \<Rightarrow> string \<Rightarrow> db \<Rightarrow> db" where
  "register_user uname pw d =
     (let hashed_password = hash_password pw;
          user_data = \<lparr>u_username = uname, u_password = hashed_password\<rparr>
      in d\<lparr>user_collection := user_collection d @ [user_data]\<rparr>)"

definition authenticate_user :: "string \<Rightarrow> string \<Rightarrow> db \<Rightarrow> bool" where
  "authenticate_user uname pw d =
     (let hashed_password = hash_password pw;
          user = find (\<lambda>u. u_username u = uname \<and> u_password u = hashed_password)
                      (user_collection d)
      in user \<noteq> None)"

section \<open>Message store operations (main.py, lines 123-141)\<close>


text \<open>
  The store keeps a datetime as a whole number of milliseconds: \<open>insert_one\<close> drops the
  microseconds below the millisecond, and that is the value which a query sorts on and
  returns.
\<close>

definition bson_datetime :: "int \<Rightarrow> int" where
  "bson_datetime t = t div 1000 * 1000"

text \<open>
  \<open>store_message\<close>; \<open>now\<close> is the reading of \<open>datetime.now()\<close> in this call, and the
  document is as the collection holds it after \<open>insert_one\<close>.
\<close>

definition store_message :: "string \<Rightarrow> string \<Rightarrow> int \<Rightarrow> session_state \<Rightarrow> db \<Rightarrow> db" where
  "store_message r t now ss d =
     (let data = \<lparr>role = r, msg_text = t, timestamp = bson_datetime now,
                   username = ss_username ss\<rparr>
      in d\<lparr>collection := collection d @ [data]\<rparr>)"

text \<open>
  The query of \<open>retrieve_relevant_messages\<close> (line 140) has three parts, all evaluated by
  the store:
  \<^item> \<open>find\<close> with the filter \<open>{"username": ..., "$text": {"$search": query}}\<close>. The
    text-search predicate of the store (tokenising, stemming, stop words) is the
    parameter \<open>tsearch\<close>: \<open>tsearch query t\<close> holds when the text \<open>t\<close> matches \<open>query\<close>;
  \<^item> \<open>.sort("timestamp", -1)\<close>: by the key, ascending for the direction \<open>1\<close> and
    descending for \<open>-1\<close>. The source gives no second key, and the store does not say in
    which order it returns documents with equal keys. That order is the parameter
    \<open>tie\<close> of this execution of the query: a rank for each position of the list that is
    sorted. Documents with equal keys come by rank, and in the order of the list where
    the ranks are equal too;
  \<^item> \<open>.limit(5)\<close>.
\<close>

definition find_messages :: "(string \<Rightarrow> string \<Rightarrow> bool) \<Rightarrow> session_state \<Rightarrow> db \<Rightarrow> string \<Rightarrow> message list" where
  "find_messages tsearch ss d query =
     filter (\<lambda>doc. username doc = ss_username ss \<and> tsearch query (msg_text doc)) (collection d)"

definition sort_cursor :: "(message \<Rightarrow> int) \<Rightarrow> int \<Rightarrow> (nat \<Rightarrow> int) \<Rightarrow> message list \<Rightarrow> message list" where
  "sort_cursor key direction tie docs =
     map fst (sort_key (\<lambda>(doc, i). direction * key doc)
               (sort_key (\<lambda>(doc, i). tie i) (zip docs [0..<length docs])))"

definition limit :: "nat \<Rightarrow> message list \<Rightarrow> message list" where
  "limit n docs = take n docs"

definition retrieve_relevant_messages ::
  "(string \<Rightarrow> string \<Rightarrow> bool) \<Rightarrow> (nat \<Rightarrow> int) \<Rightarrow> session_state \<Rightarrow> db \<Rightarrow> string \<Rightarrow> string list" where
  "retrieve_relevant_messages tsearch tie ss d query =
     (let results = limit 5 (sort_cursor timestamp (- 1) tie (find_messages tsearch ss d query))
      in map msg_text results)"


text \<open>
  A list is a descending sort of another when it has the same documents, each as often,
  and its timestamps descend.
\<close>

definition sorted_desc_of :: "message list \<Rightarrow> message list \<Rightarrow> bool" where
  "sorted_desc_of ys xs \<longleftrightarrow>
     mset ys = mset xs \<and> sorted_wrt (\<lambda>a b. timestamp b \<le> timestamp a) ys"

section \<open>The script (main.py, lines 81-214)\<close>

text \<open>Python's \<open>sep.join(xs)\<close>.\<close>

fun join :: "string \<Rightarrow> string list \<Rightarrow> string" where
  "join sep [] = []"
| "join sep [x] = x"
| "join sep (x # y # ys) = x @ sep @ join sep (y # ys)"

text \<open>Lines 81-83 and 116-119: keys are set only when they are not in the dictionary.\<close>

definition init_login :: "session_state \<Rightarrow> session_state" where
  "init_login ss =
     (if logged_in ss = None then ss\<lparr>logged_in := Some False, ss_username := None\<rparr> else ss)"

definition start_chat :: chat where
  "start_chat = []"

definition init_chat :: "session_state \<Rightarrow> session_state" where
  "init_chat ss =
     (let ss1 = (if chat_session ss = None then ss\<lparr>chat_session := Some start_chat\<rparr> else ss)
      in if messages ss1 = None then ss1\<lparr>messages := Some []\<rparr> else ss1)"

text \<open>
  The handlers of the three sidebar buttons (lines 92-97, 101-107, 110-112). The
  Register handler makes two calls to the store: \<open>find_one\<close> (line 93), whose result is
  \<open>register_find\<close>, and then, by that result, \<open>insert_one\<close> (line 72, in \<open>register_user\<close>):
  \<open>register_finish\<close> is lines 93-97 from the result of the lookup on, on the database as
  it is by then. \<open>register_button\<close> is the handler with no other write to the collection
  between its two calls.
\<close>

definition register_find :: "string \<Rightarrow> db \<Rightarrow> bool" where
  "register_find uname d \<longleftrightarrow> find (\<lambda>u. u_username u = uname) (user_collection d) \<noteq> None"

definition register_finish :: "bool \<Rightarrow> string \<Rightarrow> string \<Rightarrow> db \<Rightarrow> notice \<times> db" where
  "register_finish found uname pw d =
     (if found
      then (Error ''Username already exists'', d)
      else (Success ''Registration successful. Please log in.'', register_user uname pw d))"

definition register_button :: "string \<Rightarrow> string \<Rightarrow> db \<Rightarrow> notice \<times> db" where
  "register_button uname pw d = register_finish (register_find uname d) uname pw d"

definition login_button :: "string \<Rightarrow> string \<Rightarrow> db \<Rightarrow> session_state \<Rightarrow> notice \<times> session_state" where
  "login_button uname pw d ss =
     (if authenticate_user uname pw d
      then (Success ''Login successful.'', ss\<lparr>logged_in := Some True, ss_username := Some uname\<rparr>)
      else (Error ''Invalid username or password'', ss))"

definition logout_button :: "session_state \<Rightarrow> session_state" where
  "logout_button ss = ss\<lparr>logged_in := Some False, ss_username := None\<rparr>"

text \<open>
  \<open>chat_session.send_message(prompt)\<close> followed by \<open>.text\<close>. The outcome is the
  environment's: \<open>Inr t\<close> is a response with text \<open>t\<close>, \<open>Inl e\<close> an \<open>Exception\<close> whose
  \<open>str\<close> is \<open>e\<close>. The call is recorded on the handle.
\<close>

definition send_message :: "chat \<Rightarrow> string \<Rightarrow> string + string \<Rightarrow> chat \<times> (string + string)" where
  "send_message c prompt outcome = (c @ [prompt], outcome)"

text \<open>The \<open>try\<close>/\<open>except Exception as e\<close> around the call (lines 199-203).\<close>

definition response_text :: "string + string \<Rightarrow> string" where
  "response_text res = (case res of Inr t \<Rightarrow> t | Inl e \<Rightarrow> ''Error: '' @ e)"

text \<open>
  Reading a key that is not in \<open>st.session_state\<close> raises an \<open>AttributeError\<close>, with
  this description in Streamlit.
\<close>

definition missing_attr_error_message :: "string \<Rightarrow> string" where
  "missing_attr_error_message attr_name =
     ''st.session_state has no attribute '' @ [CHR 0x22] @ attr_name @ [CHR 0x22]
     @ ''. Did you forget to initialize it? More info: ''
     @ ''https://docs.streamlit.io/library/advanced-features/session-state#initialization''"

text \<open>
  The block under \<open>if user_prompt:\<close> (lines 184-209). \<open>now1\<close> and \<open>now2\<close> are the two
  readings of the clock. Line 188 reads \<open>messages\<close> outside the \<open>try\<close>: without the
  key the run ends there, and the result is \<open>Inl\<close> with the state at that point. Line
  200 reads \<open>chat_session\<close> inside the \<open>try\<close>: without the key the error is caught as
  any other failure of the call.
\<close>

definition submit_block ::
  "(string \<Rightarrow> string \<Rightarrow> bool) \<Rightarrow> (nat \<Rightarrow> int) \<Rightarrow> int \<Rightarrow> int \<Rightarrow> string + string
     \<Rightarrow> string \<Rightarrow> db \<times> session_state \<Rightarrow> py_error \<times> db \<times> session_state + db \<times> session_state" where
  "submit_block tsearch tie now1 now2 outcome user_prompt st =
     (let (d, ss) = st;
          d1 = store_message ''user'' user_prompt now1 ss d
      in case messages ss of
           None \<Rightarrow> Inl (AttributeError, d1, ss)
         | Some ms \<Rightarrow>
             (let ms1 = ms @ [\<lparr>v_role = ''user'', v_text = user_prompt, retrieved = None\<rparr>];
                  relevant_messages = retrieve_relevant_messages tsearch tie ss d1 user_prompt;
                  context = join '' '' relevant_messages;
                  combined_prompt = context @ '' '' @ user_prompt;
                  ms2 = ms1 @ [\<lparr>v_role = ''system'', v_text = combined_prompt,
                                retrieved = Some relevant_messages\<rparr>];
                  ss2 = ss\<lparr>messages := Some ms2\<rparr>;
                  (cs', res) =
                    (case chat_session ss2 of
                       None \<Rightarrow> (None, Inl (missing_attr_error_message ''chat_session''))
                     | Some c \<Rightarrow>
                         (let (c', r) = send_message c combined_prompt outcome in (Some c', r)));
                  reply = response_text res;
                  d2 = store_message ''assistant'' reply now2 ss d1;
                  ms3 = ms2 @ [\<lparr>v_role = ''assistant'', v_text = reply, retrieved = None\<rparr>]
              in Inr (d2, ss2\<lparr>chat_session := cs', messages := Some ms3\<rparr>)))"

text \<open>
  Streamlit runs the script from the top on every interaction. An event is the
  interaction that starts the run, with what the environment supplies during it: for a
  submit the two readings of the clock, the outcome of the model call and the tie order
  of the retrieval.
  A widget that the run does not draw cannot be the event: the event is then treated as
  a plain rerun.
\<close>

datatype event =
    Rerun
  | Register string string
  | Login string string
  | Logout
  | Submit string int int "string + string" "nat \<Rightarrow> int"

text \<open>
  One run of the script, from the top to its end, on a database that no other connection
  writes to meanwhile. \<open>st.experimental_rerun()\<close> ends the run and starts a run
  without an event, in which only the two initialisation blocks can change the state.
\<close>

definition run_script :: "(string \<Rightarrow> string \<Rightarrow> bool) \<Rightarrow> event \<Rightarrow> db \<times> session_state \<Rightarrow> db \<times> session_state" where
  "run_script tsearch ev st =
     (let (d, ss0) = st;
          ss1 = init_login ss0
      in if logged_in ss1 \<noteq> Some True
         then (case ev of
                 Register uname pw \<Rightarrow> (snd (register_button uname pw d), init_chat ss1)
               | Login uname pw \<Rightarrow> (d, init_chat (snd (login_button uname pw d ss1)))
               | _ \<Rightarrow> (d, init_chat ss1))
         else (case ev of
                 Logout \<Rightarrow> (d, init_chat (init_login (logout_button ss1)))
               | Submit user_prompt now1 now2 outcome tie \<Rightarrow>
                   (if user_prompt \<noteq> []
                    then (case submit_block tsearch tie now1 now2 outcome user_prompt (d, init_chat ss1) of
                            Inr (d', ss') \<Rightarrow> (d', init_chat (init_login ss'))
                          | Inl (e, d', ss') \<Rightarrow> (d', ss'))
                    else (d, init_chat ss1))
               | _ \<Rightarrow> (d, init_chat ss1)))"

text \<open>
  Several browser connections share the database; each has its own
  \<open>st.session_state\<close>, which starts empty, and runs the script in a thread of its own.
  The store calls of different connections interleave. For the Register handler this
  matters: what it inserts is decided by a lookup made before. A trace therefore has
  three kinds of steps on a connection:
  \<^item> \<open>Run ev\<close>: a whole run of the script for the event, no other connection acting
    in between;
  \<^item> \<open>Register_find uname pw\<close>: a run for a click on Register, up to and including
    \<open>find_one\<close> (line 93); the connection then holds the two inputs and the result of
    the lookup;
  \<^item> \<open>Register_insert\<close>: the rest of that run, from the result of the lookup on.
  A step that cannot happen (a new run on a connection that is in the middle of one, the
  rest of a run that has not begun, a click on a button that is not drawn) leaves
  everything as it is.
\<close>

record connection =
  session :: session_state
  pending :: "(string \<times> string \<times> bool) option"

datatype action = Run event | Register_find string string | Register_insert

definition new_session :: session_state where
  "new_session = \<lparr>logged_in = None, ss_username = None, chat_session = None, messages = None\<rparr>"

definition new_connection :: connection where
  "new_connection = \<lparr>session = new_session, pending = None\<rparr>"

definition empty_db :: db where
  "empty_db = \<lparr>user_collection = [], collection = []\<rparr>"

definition step :: "(string \<Rightarrow> string \<Rightarrow> bool) \<Rightarrow> db \<times> (nat \<Rightarrow> connection) \<Rightarrow> nat \<times> action \<Rightarrow> db \<times> (nat \<Rightarrow> connection)" where
  "step tsearch w a =
     (let (d, C) = w; (i, act) = a; c = C i
      in case act of
           Run ev \<Rightarrow>
             (if pending c = None
              then (let (d', ss') = run_script tsearch ev (d, session c)
                    in (d', C(i := c\<lparr>session := ss'\<rparr>)))
              else w)
         | Register_find uname pw \<Rightarrow>
             (let ss1 = init_login (session c)
              in if pending c = None \<and> logged_in ss1 \<noteq> Some True
                 then (d, C(i := \<lparr>session = ss1,
                                  pending = Some (uname, pw, register_find uname d)\<rparr>))
                 else w)
         | Register_insert \<Rightarrow>
             (case pending c of
                None \<Rightarrow> w
              | Some (uname, pw, found) \<Rightarrow>
                  (snd (register_finish found uname pw d),
                   C(i := \<lparr>session = init_chat (session c), pending = None\<rparr>))))"

definition run :: "(string \<Rightarrow> string \<Rightarrow> bool) \<Rightarrow> (nat \<times> action) list \<Rightarrow> db \<times> (nat \<Rightarrow> connection)" where
  "run tsearch acts = foldl (step tsearch) (empty_db, \<lambda>_. new_connection) acts"

text \<open>
  What a run reads under the keys \<open>messages\<close> and \<open>chat_session\<close> once lines 116-119
  have run: the stored value, or the initial one when the key was not there.
\<close>

definition view :: "session_state \<Rightarrow> view_message list" where
  "view ss = (case messages ss of None \<Rightarrow> [] | Some ms \<Rightarrow> ms)"

definition handle :: "session_state \<Rightarrow> chat" where
  "handle ss = (case chat_session ss of None \<Rightarrow> start_chat | Some c \<Rightarrow> c)"

section \<open>Example inputs\<close>

text \<open>
  Instances of the store's parameters for the examples: a text search that matches when
  a word of the query is a word of the text, and two tie orders, by which documents
  with equal timestamps come in the order of their insertion or in the reverse of it.
\<close>

fun words :: "string \<Rightarrow> string list" where
  "words [] = [[]]"
| "words (c # cs) =
     (if c = CHR '' '' then [] # words cs
      else (case words cs of w # ws \<Rightarrow> (c # w) # ws | [] \<Rightarrow> [[c]]))"

definition word_search :: "string \<Rightarrow> string \<Rightarrow> bool" where
  "word_search query t = (\<exists>w \<in> set (words query). w \<noteq> [] \<and> w \<in> set (words t))"

definition as_inserted :: "nat \<Rightarrow> int" where
  "as_inserted i = 0"

definition last_inserted_first :: "nat \<Rightarrow> int" where
  "last_inserted_first i = - int i"

definition alice :: session_state where
  "alice = \<lparr>logged_in = Some True, ss_username = Some ''alice'',
             chat_session = Some [], messages = Some []\<rparr>"


definition cats_db :: db where
  "cats_db = \<lparr>user_collection =
       [\<lparr>u_username = ''alice'', u_password = hash_password ''wonderland''\<rparr>],
     collection =
       [\<lparr>role = ''user'', msg_text = ''cats are great'', timestamp = 1000, username = Some ''alice''\<rparr>,
        \<lparr>role = ''user'', msg_text = ''dogs are great'', timestamp = 2000, username = Some ''alice''\<rparr>,
        \<lparr>role = ''user'', msg_text = ''cats rule'', timestamp = 3000, username = Some ''alice''\<rparr>]\<rparr>"

definition tie_db :: db where
  "tie_db = \<lparr>user_collection = [],
     collection =
       [\<lparr>role = ''user'', msg_text = ''cats sleep'', timestamp = 1000, username = Some ''alice''\<rparr>,
        \<lparr>role = ''assistant'', msg_text = ''cats purr'', timestamp = 1000, username = Some ''alice''\<rparr>]\<rparr>"

text \<open>
  Two connections register the same username at the same time: both look the username
  up before either inserts.
\<close>

definition both_register_bob :: "(nat \<times> action) list" where
  "both_register_bob =
     [(0, Register_find ''bob'' ''pw1''), (1, Register_find ''bob'' ''pw2''),
      (0, Register_insert), (1, Register_insert)]"

section \<open>Properties of one run\<close>

lemma init_chat_fields [simp]:
  "logged_in (init_chat ss) = logged_in ss"
  "ss_username (init_chat ss) = ss_username ss"
  "messages (init_chat ss) = Some (view ss)"
  "chat_session (init_chat ss) = Some (handle ss)"
  by (cases "chat_session ss"; cases "messages ss";
      simp add: init_chat_def view_def handle_def)+

lemma init_login_idem: "logged_in ss = Some b \<Longrightarrow> init_login ss = ss"
  by (simp add: init_login_def)

lemma store_message_username:
  "ss_username ss' = ss_username ss \<Longrightarrow> store_message r t n ss' d = store_message r t n ss d"
  by (simp add: store_message_def)

lemma retrieve_username:
  "ss_username ss' = ss_username ss \<Longrightarrow>
   retrieve_relevant_messages ts tie ss' d q = retrieve_relevant_messages ts tie ss d q"
  by (simp add: retrieve_relevant_messages_def find_messages_def)

lemma submit_block_present:
  assumes "messages ss = Some ms" and "chat_session ss = Some c"
  shows "submit_block tsearch tie now1 now2 outcome t (d, ss) =
     Inr (store_message ''assistant'' (response_text outcome) now2 ss (store_message ''user'' t now1 ss d),
          ss\<lparr>chat_session :=
                Some (c @ [join '' '' (retrieve_relevant_messages tsearch tie ss (store_message ''user'' t now1 ss d) t) @ '' '' @ t]),
             messages := Some (ms @
               [\<lparr>v_role = ''user'', v_text = t, retrieved = None\<rparr>,
                \<lparr>v_role = ''system'',
                 v_text = join '' '' (retrieve_relevant_messages tsearch tie ss (store_message ''user'' t now1 ss d) t) @ '' '' @ t,
                 retrieved = Some (retrieve_relevant_messages tsearch tie ss (store_message ''user'' t now1 ss d) t)\<rparr>,
                \<lparr>v_role = ''assistant'', v_text = response_text outcome, retrieved = None\<rparr>])\<rparr>)"
  using assms by (simp add: submit_block_def Let_def send_message_def)

lemma run_script_submit:
  assumes "logged_in ss = Some True" and "t \<noteq> []"
  shows "run_script tsearch (Submit t now1 now2 outcome tie) (d, ss) =
     (store_message ''assistant'' (response_text outcome) now2 ss (store_message ''user'' t now1 ss d),
      ss\<lparr>chat_session :=
            Some (handle ss @ [join '' '' (retrieve_relevant_messages tsearch tie ss (store_message ''user'' t now1 ss d) t) @ '' '' @ t]),
         messages := Some (view ss @
           [\<lparr>v_role = ''user'', v_text = t, retrieved = None\<rparr>,
            \<lparr>v_role = ''system'',
             v_text = join '' '' (retrieve_relevant_messages tsearch tie ss (store_message ''user'' t now1 ss d) t) @ '' '' @ t,
             retrieved = Some (retrieve_relevant_messages tsearch tie ss (store_message ''user'' t now1 ss d) t)\<rparr>,
            \<lparr>v_role = ''assistant'', v_text = response_text outcome, retrieved = None\<rparr>])\<rparr>)"
proof -
  have l: "init_login ss = ss"
    using assms(1) by (rule init_login_idem)
  have u: "ss_username (init_chat ss) = ss_username ss"
    by simp
  have b: "submit_block tsearch tie now1 now2 outcome t (d, init_chat ss) = Inr (d', ss') \<Longrightarrow>
      run_script tsearch (Submit t now1 now2 outcome tie) (d, ss) = (d', init_chat (init_login ss'))"
    for d' ss'
    using assms by (simp add: run_script_def l)
  have f: "init_chat (init_login ((init_chat ss)\<lparr>chat_session := Some c', messages := Some ms'\<rparr>))
      = ss\<lparr>chat_session := Some c', messages := Some ms'\<rparr>" for c' ms'
    using assms(1) by (simp add: init_chat_def init_login_def Let_def)
  show ?thesis
    by (rule trans [OF b [OF submit_block_present [of "init_chat ss" "view ss" "handle ss"]]])
       (simp_all add: f store_message_username [OF u] retrieve_username [OF u])
qed

lemma view_update [simp]: "view (ss\<lparr>chat_session := c, messages := Some ms\<rparr>) = ms"
  by (simp add: view_def)

lemma handle_update [simp]: "handle (ss\<lparr>chat_session := Some c, messages := ms\<rparr>) = c"
  by (simp add: handle_def)

lemma join_sep: "rs \<noteq> [] \<Longrightarrow> join sep rs @ sep = concat (map (\<lambda>r. r @ sep) rs)"
  by (induction sep rs rule: join.induct) simp_all

section \<open>The sort of the store\<close>

lemma mset_sort_cursor: "mset (sort_cursor key direction tie docs) = mset docs"
proof -
  have "map fst (zip docs [0..<length docs]) = docs"
    by simp
  then have "image_mset fst (mset (zip docs [0..<length docs])) = mset docs"
    by (metis mset_map)
  then show ?thesis
    by (simp add: sort_cursor_def)
qed

lemma sort_cursor_sorted:
  "sorted (map (\<lambda>doc. direction * key doc) (sort_cursor key direction tie docs))"
proof -
  have "sorted (map (\<lambda>(doc, i). direction * key doc)
      (sort_key (\<lambda>(doc, i). direction * key doc)
        (sort_key (\<lambda>(doc, i). tie i) (zip docs [0..<length docs]))))"
    by (rule sorted_sort_key)
  moreover have "(\<lambda>doc. direction * key doc) \<circ> fst = (\<lambda>(doc, i :: nat). direction * key doc)"
    by auto
  ultimately show ?thesis
    by (simp add: sort_cursor_def)
qed

lemma sort_cursor_desc: "sorted_desc_of (sort_cursor timestamp (- 1) tie docs) docs"
  using sort_cursor_sorted [of "- 1" timestamp tie docs]
  by (simp add: sorted_desc_of_def mset_sort_cursor sorted_map)

lemma sort_cursor_asc:
  "sorted_wrt (\<lambda>a b. timestamp a \<le> timestamp b) (sort_cursor timestamp 1 tie docs)"
  using sort_cursor_sorted [of 1 timestamp tie docs]
  by (simp add: sorted_map)

text \<open>
  The tie order leaves no order of equal timestamps out: every descending sort of the
  documents is what \<open>sort_cursor\<close> returns for some tie order.
\<close>

lemma positions_of_rearrangement:
  "mset ys = mset xs \<Longrightarrow>
     \<exists>ps. distinct ps \<and> set ps = {..<length xs} \<and> ys = map ((!) xs) ps"
proof (induction xs arbitrary: ys)
  case Nil
  then show ?case by simp
next
  case (Cons x xs)
  have "x \<in> set ys"
    using Cons.prems by (metis list.set_intros(1) mset_eq_setD)
  then obtain as bs where ys: "ys = as @ x # bs"
    by (auto dest: split_list)
  have "mset (as @ bs) = mset xs"
    using Cons.prems by (simp add: ys)
  then obtain ps where ps: "distinct ps" "set ps = {..<length xs}" "as @ bs = map ((!) xs) ps"
    using Cons.IH by blast
  let ?k = "length as"
  let ?qs = "map Suc (take ?k ps) @ 0 # map Suc (drop ?k ps)"
  have d: "distinct (take ?k ps) \<and> distinct (drop ?k ps) \<and> set (take ?k ps) \<inter> set (drop ?k ps) = {}"
      "set (take ?k ps) \<union> set (drop ?k ps) = set ps"
    using ps(1) distinct_append [of "take ?k ps" "drop ?k ps"] by (simp_all flip: set_append)
  have "distinct ?qs"
    using d(1) by (auto simp: distinct_map)
  moreover have "set ?qs = {..<length (x # xs)}"
    using d(2) ps(2) by (auto simp: lessThan_Suc_eq_insert_0 simp flip: image_Un)
  moreover have "ys = map ((!) (x # xs)) ?qs"
  proof -
    have "map ((!) xs) (take ?k ps) = take ?k (as @ bs)"
         "map ((!) xs) (drop ?k ps) = drop ?k (as @ bs)"
      unfolding ps(3) by (simp_all add: take_map drop_map)
    then have "map ((!) xs) (take ?k ps) = as" "map ((!) xs) (drop ?k ps) = bs"
      by simp_all
    then show ?thesis
      by (simp add: ys comp_def)
  qed
  ultimately show ?case
    by blast
qed

lemma sort_cursor_any_order:
  assumes "sorted_desc_of ys xs"
  shows "\<exists>tie. sort_cursor timestamp (- 1) tie xs = ys"
proof -
  let ?n = "length xs"
  obtain ps where ps: "distinct ps" "set ps = {..<?n}" "ys = map ((!) xs) ps"
    using assms positions_of_rearrangement unfolding sorted_desc_of_def by blast
  have len: "length ps = ?n"
    using ps(1,2) by (metis card_lessThan distinct_card)
  define tie where "tie i = int (the (map_of (zip ps [0..<?n]) i))" for i
  have rank: "tie (ps ! k) = int k" if "k < ?n" for k
    using map_of_zip_nth [of ps "[0..<?n]" k] that ps(1) len by (simp add: tie_def)
  let ?f = "\<lambda>(doc :: message, i). tie i"
  let ?g = "\<lambda>(doc :: message, i :: nat). - timestamp doc"
  let ?zs = "zip xs [0..<?n]"
  let ?ws = "map (\<lambda>i. (xs ! i, i)) ps"
  have zs: "?zs = map (\<lambda>i. (xs ! i, i)) [0..<?n]"
    by (rule nth_equalityI) simp_all
  have "mset ps = mset [0..<?n]"
    using ps(1,2) by (metis atLeast_upt distinct_upt set_eq_iff_mset_eq_distinct)
  then have m: "mset ?zs = mset ?ws"
    unfolding zs by (metis mset_map)
  have tie_ps: "map tie ps = map int [0..<?n]"
    by (rule nth_equalityI) (simp_all add: len rank)
  have inj: "inj_on ?f (set ?zs)"
  proof (rule inj_onI)
    fix a b
    assume a: "a \<in> set ?zs" and b: "b \<in> set ?zs" and e: "?f a = ?f b"
    obtain i j where ij: "a = (xs ! i, i)" "i < ?n" "b = (xs ! j, j)" "j < ?n"
      using a b unfolding zs by auto
    obtain k l where kl: "k < ?n" "i = ps ! k" "l < ?n" "j = ps ! l"
      using ij(2,4) ps(2) len by (metis in_set_conv_nth lessThan_iff)
    have "int k = int l"
      using e rank [OF kl(1)] rank [OF kl(3)] by (simp add: ij kl)
    then show "a = b"
      by (simp add: ij kl)
  qed
  have "sorted (map ?f ?ws)"
  proof -
    have "map ?f ?ws = map tie ps"
      by (simp add: comp_def)
    then show ?thesis
      by (simp add: tie_ps sorted_map)
  qed
  then have s1: "sort_key ?f ?zs = ?ws"
    using m inj by (intro sort_key_inj_key_eq)
  have "map ?g ?ws = map (\<lambda>doc. - timestamp doc) ys"
    by (simp add: ps(3) comp_def)
  moreover have "sorted (map (\<lambda>doc. - timestamp doc) ys)"
    using assms by (simp add: sorted_desc_of_def sorted_map)
  ultimately have s2: "sort_key ?g ?ws = ?ws"
    by (intro sort_key_id_if_sorted) simp
  have "sort_cursor timestamp (- 1) tie xs = map fst (sort_key ?g (sort_key ?f ?zs))"
    by (simp add: sort_cursor_def)
  also have "\<dots> = map fst ?ws"
    by (simp only: s1 s2)
  also have "\<dots> = ys"
    by (simp add: ps(3) comp_def)
  finally show ?thesis
    by blast
qed

section \<open>Submitting a prompt\<close>

text \<open>
  C1, as stated: a completed submit persists exactly three new messages (user,
  system/debug, assistant). On the example store, a submit of \<open>cats\<close> adds two documents
  to the collection, with the roles \<open>user\<close> and \<open>assistant\<close>: the debug entry is only
  appended to \<open>st.session_state.messages\<close> (line 196) and \<open>store_message\<close> is not
  called for it.
\<close>

theorem submit_persists_three_counterexample:
  "map role (collection (fst (run_script word_search (Submit ''cats'' 4500 5250 (Inr ''meow'') as_inserted) (cats_db, alice))))
     = map role (collection cats_db) @ [''user'', ''assistant'']
   \<and> length (collection (fst (run_script word_search (Submit ''cats'' 4500 5250 (Inr ''meow'') as_inserted) (cats_db, alice))))
     \<noteq> length (collection cats_db) + 3"
  by (simp add: run_script_submit alice_def cats_db_def store_message_def)

text \<open>
  C1, amended: for every submitted non-empty text in a logged-in session, and whatever
  the outcome of the model call, the run appends exactly two documents to the message
  collection, the user's text and then the assistant's reply, both under the session's
  username and each with the reading of the clock as the store keeps it; the in-memory
  list grows by three entries: user, system, assistant.
\<close>

theorem submit_persists_user_and_assistant:
  assumes "logged_in ss = Some True" and "user_prompt \<noteq> []"
  shows "collection (fst (run_script tsearch (Submit user_prompt now1 now2 outcome tie) (d, ss))) =
           collection d @
             [\<lparr>role = ''user'', msg_text = user_prompt, timestamp = bson_datetime now1,
                 username = ss_username ss\<rparr>,
              \<lparr>role = ''assistant'', msg_text = response_text outcome, timestamp = bson_datetime now2,
                 username = ss_username ss\<rparr>]
       \<and> map v_role (view (snd (run_script tsearch (Submit user_prompt now1 now2 outcome tie) (d, ss)))) =
           map v_role (view ss) @ [''user'', ''system'', ''assistant'']"
  by (simp add: run_script_submit [OF assms] store_message_def)

theorem submit_persists_user_and_assistant_witness:
  "collection (fst (run_script word_search (Submit ''cats'' 4500 5250 (Inl ''quota'') as_inserted) (cats_db, alice)))
     = collection cats_db @
         [\<lparr>role = ''user'', msg_text = ''cats'', timestamp = 4000, username = Some ''alice''\<rparr>,
          \<lparr>role = ''assistant'', msg_text = ''Error: quota'', timestamp = 5000, username = Some ''alice''\<rparr>]
   \<and> map v_role (view (snd (run_script word_search (Submit ''cats'' 4500 5250 (Inl ''quota'') as_inserted) (cats_db, alice))))
     = [''user'', ''system'', ''assistant'']"
  using submit_persists_user_and_assistant [of alice "''cats''" word_search 4500 5250 "Inl ''quota''" as_inserted cats_db]
  by (simp add: alice_def response_text_def view_def bson_datetime_def)

text \<open>
  C4: an exception of the model call with description \<open>e\<close> leaves the run in the very
  state that a normal reply with the text \<open>Error: e\<close> would: the synthetic reply is
  the last document stored and the last entry of the in-memory list, \<open>send_message\<close>
  has been called once on the handle, and the session is still logged in, so that the
  next submit is handled as any other.
\<close>

theorem model_failure_becomes_reply:
  assumes "logged_in ss = Some True" and "user_prompt \<noteq> []"
  shows "run_script tsearch (Submit user_prompt now1 now2 (Inl e) tie) (d, ss) =
           run_script tsearch (Submit user_prompt now1 now2 (Inr (''Error: '' @ e)) tie) (d, ss)
       \<and> last (collection (fst (run_script tsearch (Submit user_prompt now1 now2 (Inl e) tie) (d, ss)))) =
           \<lparr>role = ''assistant'', msg_text = ''Error: '' @ e, timestamp = bson_datetime now2,
              username = ss_username ss\<rparr>
       \<and> last (view (snd (run_script tsearch (Submit user_prompt now1 now2 (Inl e) tie) (d, ss)))) =
           \<lparr>v_role = ''assistant'', v_text = ''Error: '' @ e, retrieved = None\<rparr>
       \<and> length (handle (snd (run_script tsearch (Submit user_prompt now1 now2 (Inl e) tie) (d, ss)))) =
           length (handle ss) + 1
       \<and> logged_in (snd (run_script tsearch (Submit user_prompt now1 now2 (Inl e) tie) (d, ss))) = Some True"
  by (simp add: run_script_submit [OF assms] store_message_def response_text_def assms(1))

theorem model_failure_becomes_reply_witness:
  "logged_in alice = Some True \<and> ''cats'' \<noteq> []
   \<and> last (collection (fst (run_script word_search (Submit ''cats'' 4500 5250 (Inl ''quota'') as_inserted) (cats_db, alice)))) =
     \<lparr>role = ''assistant'', msg_text = ''Error: quota'', timestamp = 5000, username = Some ''alice''\<rparr>
   \<and> last (view (snd (run_script word_search (Submit ''cats'' 4500 5250 (Inl ''quota'') as_inserted) (cats_db, alice)))) =
     \<lparr>v_role = ''assistant'', v_text = ''Error: quota'', retrieved = None\<rparr>"
proof -
  have h: "logged_in alice = Some True" "''cats'' \<noteq> []"
    by (simp_all add: alice_def)
  have u: "ss_username alice = Some ''alice''"
    by (simp add: alice_def)
  show ?thesis
    using model_failure_becomes_reply [OF h, of word_search 4500 5250 "''quota''" as_inserted cats_db, THEN conjunct2]
    by (simp add: h u bson_datetime_def)
qed

text \<open>
  C7: the prompt passed to \<open>send_message\<close> (and recorded in the debug entry together
  with the retrieved list) is the retrieved texts joined by single spaces, then a space,
  then the user's text. Every retrieved text is there in full and in order, each followed
  by one space; with nothing retrieved the prompt is a space and the text.
\<close>

theorem augmented_prompt_is_context_then_text:
  assumes "logged_in ss = Some True" and "user_prompt \<noteq> []"
  shows "(let rs = retrieve_relevant_messages tsearch tie ss (store_message ''user'' user_prompt now1 ss d) user_prompt;
              st' = run_script tsearch (Submit user_prompt now1 now2 outcome tie) (d, ss)
          in handle (snd st') = handle ss @ [join '' '' rs @ '' '' @ user_prompt]
           \<and> view (snd st') ! Suc (length (view ss)) =
               \<lparr>v_role = ''system'', v_text = join '' '' rs @ '' '' @ user_prompt, retrieved = Some rs\<rparr>
           \<and> (rs \<noteq> [] \<longrightarrow> join '' '' rs @ '' '' @ user_prompt = concat (map (\<lambda>r. r @ '' '') rs) @ user_prompt)
           \<and> (rs = [] \<longrightarrow> join '' '' rs @ '' '' @ user_prompt = '' '' @ user_prompt))"
  using join_sep [of _ "'' ''"]
  by (simp add: run_script_submit [OF assms] Let_def nth_append flip: append_assoc)

theorem augmented_prompt_is_context_then_text_witness:
  "logged_in alice = Some True \<and> ''cats'' \<noteq> []
   \<and> handle (snd (run_script word_search (Submit ''cats'' 4500 5250 (Inr ''meow'') as_inserted) (cats_db, alice)))
       = [''cats cats rule cats are great cats'']"
proof -
  have h: "logged_in alice = Some True" "''cats'' \<noteq> []"
    by (simp_all add: alice_def)
  have rs: "retrieve_relevant_messages word_search as_inserted alice
              (store_message ''user'' ''cats'' 4500 alice cats_db) ''cats''
            = [''cats'', ''cats rule'', ''cats are great'']"
    by (simp add: retrieve_relevant_messages_def limit_def sort_cursor_def find_messages_def
        store_message_def bson_datetime_def word_search_def as_inserted_def alice_def cats_db_def)
  have c: "handle alice = []"
    by (simp add: handle_def alice_def)
  show ?thesis
    using augmented_prompt_is_context_then_text
      [where ss = alice and user_prompt = "''cats''" and tsearch = word_search
         and tie = as_inserted and ?now1.0 = 4500 and ?now2.0 = 5250 and outcome = "Inr ''meow''"
         and d = cats_db, OF h]
    by (simp add: Let_def rs c h)
qed

section \<open>Retrieval\<close>

lemma sorted_desc_of_set: "sorted_desc_of ys xs \<Longrightarrow> set ys = set xs"
  by (auto simp: sorted_desc_of_def dest: mset_eq_setD)


lemma sorted_desc_of_Nil: "sorted_desc_of ys [] \<Longrightarrow> ys = []"
  by (simp add: sorted_desc_of_def)

lemma find_messages_set:
  "set (find_messages tsearch ss d query) =
     {m \<in> set (collection d). username m = ss_username ss \<and> tsearch query (msg_text m)}"
  by (simp add: find_messages_def)

lemma take_drop_desc:
  assumes "sorted_wrt (\<lambda>a b. timestamp b \<le> timestamp a) ys"
    and "r \<in> set (take n ys)" and "m \<in> set (drop n ys)"
  shows "timestamp m \<le> timestamp r"
proof -
  have "sorted_wrt (\<lambda>a b. timestamp b \<le> timestamp a) (take n ys @ drop n ys)"
    using assms(1) by simp
  then show ?thesis
    using assms(2,3) unfolding sorted_wrt_append by blast
qed

text \<open>
  C2: for every session username, query, store and tie order of the execution, at most
  five texts are returned; they are the texts of the first five documents of the sorted
  matches; each of these is a document of the collection whose \<open>username\<close> is the
  session's and whose text matches the query; their timestamps descend; and no match
  that is left out is more recent than one that is returned.
\<close>

theorem retrieve_at_most_five_own_matching_newest_first:
  "length (retrieve_relevant_messages tsearch tie ss d query) \<le> 5
   \<and> retrieve_relevant_messages tsearch tie ss d query =
       map msg_text (take 5 (sort_cursor timestamp (- 1) tie (find_messages tsearch ss d query)))
   \<and> (\<forall>m \<in> set (take 5 (sort_cursor timestamp (- 1) tie (find_messages tsearch ss d query))).
         m \<in> set (collection d) \<and> username m = ss_username ss \<and> tsearch query (msg_text m))
   \<and> sorted_wrt (\<lambda>a b. timestamp b \<le> timestamp a)
        (take 5 (sort_cursor timestamp (- 1) tie (find_messages tsearch ss d query)))
   \<and> (\<forall>r \<in> set (take 5 (sort_cursor timestamp (- 1) tie (find_messages tsearch ss d query))).
        \<forall>m \<in> set (drop 5 (sort_cursor timestamp (- 1) tie (find_messages tsearch ss d query))).
          timestamp m \<le> timestamp r)"
proof -
  let ?xs = "find_messages tsearch ss d query"
  let ?ys = "sort_cursor timestamp (- 1) tie ?xs"
  have o: "sorted_desc_of ?ys ?xs"
    by (rule sort_cursor_desc)
  have s: "sorted_wrt (\<lambda>a b. timestamp b \<le> timestamp a) ?ys"
    using o by (simp add: sorted_desc_of_def)
  have "set (take 5 ?ys) \<subseteq> set ?xs"
    using sorted_desc_of_set [OF o] set_take_subset [of 5 ?ys] by simp
  then have m: "\<forall>m \<in> set (take 5 ?ys).
      m \<in> set (collection d) \<and> username m = ss_username ss \<and> tsearch query (msg_text m)"
    unfolding find_messages_set by blast
  have l: "length (retrieve_relevant_messages tsearch tie ss d query) \<le> 5"
    by (simp add: retrieve_relevant_messages_def limit_def)
  have e: "retrieve_relevant_messages tsearch tie ss d query = map msg_text (take 5 ?ys)"
    by (simp add: retrieve_relevant_messages_def limit_def)
  have t: "sorted_wrt (\<lambda>a b. timestamp b \<le> timestamp a) (take 5 ?ys)"
    using s by simp
  have r: "\<forall>r \<in> set (take 5 ?ys). \<forall>m \<in> set (drop 5 ?ys). timestamp m \<le> timestamp r"
    using take_drop_desc [OF s] by blast
  from l e m t r show ?thesis
    by blast
qed

theorem retrieve_at_most_five_own_matching_newest_first_witness:
  "retrieve_relevant_messages word_search as_inserted alice cats_db ''cats''
     = [''cats rule'', ''cats are great'']
   \<and> map timestamp (take 5 (sort_cursor timestamp (- 1) as_inserted
                              (find_messages word_search alice cats_db ''cats''))) = [3000, 1000]"
proof -
  have v: "take 5 (sort_cursor timestamp (- 1) as_inserted (find_messages word_search alice cats_db ''cats''))
       = [\<lparr>role = ''user'', msg_text = ''cats rule'', timestamp = 3000, username = Some ''alice''\<rparr>,
          \<lparr>role = ''user'', msg_text = ''cats are great'', timestamp = 1000, username = Some ''alice''\<rparr>]"
    by (simp add: sort_cursor_def find_messages_def word_search_def
        as_inserted_def alice_def cats_db_def)
  show ?thesis
    using retrieve_at_most_five_own_matching_newest_first
      [of word_search as_inserted alice cats_db "''cats''"]
    by (simp add: v)
qed

lemma desc_timestamps_unique:
  assumes "sorted_desc_of ys xs" and "sorted_desc_of zs xs"
  shows "map timestamp ys = map timestamp zs"
proof -
  have "sort (map timestamp xs) = rev (map timestamp us)" if "sorted_desc_of us xs" for us
  proof (rule properties_for_sort)
    show "mset (rev (map timestamp us)) = mset (map timestamp xs)"
      using that by (simp add: sorted_desc_of_def)
    show "sorted (rev (map timestamp us))"
      using that by (simp add: sorted_desc_of_def sorted_wrt_rev sorted_wrt_map flip: rev_map)
  qed
  from this [OF assms(1)] this [OF assms(2)] show ?thesis
    by simp
qed

lemma desc_unique:
  assumes "sorted_desc_of ys xs" and "sorted_desc_of zs xs" and "inj_on timestamp (set xs)"
  shows "ys = zs"
proof -
  have "inj_on timestamp (set ys \<union> set zs)"
    using assms by (simp add: sorted_desc_of_set)
  then show ?thesis
    using desc_timestamps_unique [OF assms(1,2)] by (simp add: inj_on_map_eq_map)
qed

text \<open>
  C8, as stated: two calls on the same username, query and store contents return the
  same sequence, also when stored timestamps coincide. The query sorts on \<open>timestamp\<close>
  alone. On a store with two matching messages of equal timestamp, two executions that
  differ in the tie order return the two texts in different orders.
\<close>

theorem retrieve_ties_counterexample:
  "retrieve_relevant_messages word_search as_inserted alice tie_db ''cats'' = [''cats sleep'', ''cats purr'']
   \<and> retrieve_relevant_messages word_search last_inserted_first alice tie_db ''cats'' = [''cats purr'', ''cats sleep'']
   \<and> retrieve_relevant_messages word_search as_inserted alice tie_db ''cats'' \<noteq>
       retrieve_relevant_messages word_search last_inserted_first alice tie_db ''cats''"
  by (simp add: retrieve_relevant_messages_def limit_def sort_cursor_def find_messages_def
      word_search_def as_inserted_def last_inserted_first_def alice_def tie_db_def)

text \<open>
  C8, amended: for two executions of the query on the same username, query and store
  contents, whatever their tie orders: the timestamps of the returned documents are the
  same, position by position; when the timestamps of the matching messages are pairwise
  different, the returned sequences are the same; and the sequence is empty when no
  stored message matches, or when the user has no message.
\<close>

theorem retrieve_determined_up_to_ties:
  "map timestamp (take 5 (sort_cursor timestamp (- 1) tie1 (find_messages tsearch ss d query))) =
     map timestamp (take 5 (sort_cursor timestamp (- 1) tie2 (find_messages tsearch ss d query)))
   \<and> (inj_on timestamp (set (find_messages tsearch ss d query)) \<longrightarrow>
        retrieve_relevant_messages tsearch tie1 ss d query =
        retrieve_relevant_messages tsearch tie2 ss d query)
   \<and> ((\<forall>m \<in> set (collection d). \<not> tsearch query (msg_text m)) \<longrightarrow>
        retrieve_relevant_messages tsearch tie1 ss d query = [])
   \<and> ((\<forall>m \<in> set (collection d). username m \<noteq> ss_username ss) \<longrightarrow>
        retrieve_relevant_messages tsearch tie1 ss d query = [])"
proof -
  let ?xs = "find_messages tsearch ss d query"
  note o1 = sort_cursor_desc [of tie1 ?xs] and o2 = sort_cursor_desc [of tie2 ?xs]
  have a: "map timestamp (take 5 (sort_cursor timestamp (- 1) tie1 ?xs)) =
           map timestamp (take 5 (sort_cursor timestamp (- 1) tie2 ?xs))"
    using desc_timestamps_unique [OF o1 o2] by (simp flip: take_map)
  have b: "retrieve_relevant_messages tsearch tie1 ss d query =
           retrieve_relevant_messages tsearch tie2 ss d query"
    if "inj_on timestamp (set ?xs)"
    using desc_unique [OF o1 o2 that] by (simp add: retrieve_relevant_messages_def)
  have e: "retrieve_relevant_messages tsearch tie1 ss d query = []" if "?xs = []"
    by (simp add: retrieve_relevant_messages_def limit_def sort_cursor_def that)
  have c: "?xs = []" if "\<forall>m \<in> set (collection d). \<not> tsearch query (msg_text m)"
    using that by (simp add: find_messages_def)
  have u: "?xs = []" if "\<forall>m \<in> set (collection d). username m \<noteq> ss_username ss"
    using that by (simp add: find_messages_def)
  from a b e c u show ?thesis
    by blast
qed

theorem retrieve_determined_up_to_ties_witness:
  "inj_on timestamp (set (find_messages word_search alice cats_db ''cats''))
   \<and> retrieve_relevant_messages word_search as_inserted alice cats_db ''cats'' =
       retrieve_relevant_messages word_search last_inserted_first alice cats_db ''cats''
   \<and> retrieve_relevant_messages word_search as_inserted alice cats_db ''birds'' = []"
proof -
  have i: "inj_on timestamp (set (find_messages word_search alice cats_db ''cats''))"
    by (simp add: find_messages_def word_search_def alice_def cats_db_def)
  have n: "\<forall>m \<in> set (collection cats_db). \<not> word_search ''birds'' (msg_text m)"
    by (simp add: word_search_def cats_db_def)
  show ?thesis
    using retrieve_determined_up_to_ties
      [of as_inserted word_search alice cats_db "''cats''" last_inserted_first]
      retrieve_determined_up_to_ties
      [of as_inserted word_search alice cats_db "''birds''" last_inserted_first]
      i n
    by blast
qed





text \<open>
  A reading of the clock in the millisecond of an earlier match gives the new message
  the timestamp of that match, and the tie order decides which of the two comes first.
\<close>

lemma same_millisecond_example:
  "retrieve_relevant_messages word_search as_inserted alice
     (store_message ''user'' ''cats'' 3900 alice cats_db) ''cats''
     = [''cats rule'', ''cats'', ''cats are great'']
   \<and> retrieve_relevant_messages word_search last_inserted_first alice
     (store_message ''user'' ''cats'' 3900 alice cats_db) ''cats''
     = [''cats'', ''cats rule'', ''cats are great'']"
  by (simp add: retrieve_relevant_messages_def limit_def sort_cursor_def find_messages_def
      store_message_def bson_datetime_def word_search_def as_inserted_def
      last_inserted_first_def alice_def cats_db_def)

section \<open>Logging out and in\<close>


lemma view_handle_init_chat [simp]:
  "view (init_chat ss) = view ss" "handle (init_chat ss) = handle ss"
  by (simp_all add: view_def handle_def)

lemma view_handle_logout [simp]:
  "view (logout_button ss) = view ss" "handle (logout_button ss) = handle ss"
  by (simp_all add: view_def handle_def logout_button_def)






section \<open>The digest\<close>

lemma length_hexchars: "length hexchars = 16"
  by (simp add: hexchars_def)

lemma card_hexchars: "card (set hexchars) = 16"
proof -
  have "distinct hexchars"
    by (simp add: hexchars_def)
  then show ?thesis
    by (simp add: distinct_card length_hexchars)
qed

lemma hex32_hex: "length (hex32 w) = 8 \<and> set (hex32 w) \<subseteq> set hexchars"
proof -
  have "hexchars ! (k mod 16) \<in> set hexchars" for k
    by (rule nth_mem) (simp add: length_hexchars)
  then show ?thesis
    by (simp add: hex32_def)
qed

lemma hexdigest_hex: "length (hexdigest s) = 64 \<and> set (hexdigest s) \<subseteq> set hexchars"
  by (cases s rule: hexdigest.cases) (simp add: hex32_hex)

lemma hash_password_hex:
  "length (hash_password pw) = 64 \<and> set (hash_password pw) \<subseteq> set hexchars"
  by (simp add: hash_password_def hexdigest_hex)

text \<open>
  A digest has sixty-four hexadecimal digits, so that by counting two of the passwords
  of sixty-five hexadecimal digits have the same digest. No such pair is known.
\<close>

lemma hash_password_collision:
  "\<exists>p q. length p = 65 \<and> length q = 65 \<and> p \<noteq> q \<and> hash_password p = hash_password q"
proof -
  let ?A = "{xs. set xs \<subseteq> set hexchars \<and> length xs = 65}"
  let ?B = "{xs. set xs \<subseteq> set hexchars \<and> length xs = 64}"
  have fB: "finite ?B"
    by (rule finite_lists_length_eq) simp
  have cA: "card ?A = 16 ^ 65"
    by (simp add: card_lists_length_eq card_hexchars)
  have cB: "card ?B = 16 ^ 64"
    by (simp add: card_lists_length_eq card_hexchars)
  have "hash_password ` ?A \<subseteq> ?B"
    using hash_password_hex by blast
  then have "card (hash_password ` ?A) \<le> card ?B"
    using fB by (rule card_mono [rotated])
  then have "card (hash_password ` ?A) < card ?A"
    unfolding cA cB by simp
  then have "\<not> inj_on hash_password ?A"
    by (rule pigeonhole)
  then show ?thesis
    unfolding inj_on_def by blast
qed

section \<open>The credential store\<close>

lemma register_find_iff: "register_find uname d \<longleftrightarrow> uname \<in> set (map u_username (user_collection d))"
  by (auto simp: register_find_def find_None_iff)

lemma register_button_taken:
  assumes "uname \<in> set (map u_username (user_collection d))"
  shows "register_button uname pw d = (Error ''Username already exists'', d)"
  using assms by (simp add: register_button_def register_finish_def register_find_iff)

lemma register_button_fresh:
  assumes "uname \<notin> set (map u_username (user_collection d))"
  shows "register_button uname pw d =
           (Success ''Registration successful. Please log in.'',
            d\<lparr>user_collection := user_collection d
                 @ [\<lparr>u_username = uname, u_password = hash_password pw\<rparr>]\<rparr>)"
  using assms by (simp add: register_button_def register_finish_def register_find_iff register_user_def)

lemma register_finish_users:
  "user_collection (snd (register_finish found uname pw d)) =
     (if found then user_collection d
      else user_collection d @ [\<lparr>u_username = uname, u_password = hash_password pw\<rparr>])"
  by (simp add: register_finish_def register_user_def)

lemma run_script_register:
  "fst (run_script tsearch (Register uname pw) (d, ss)) =
     (if logged_in (init_login ss) \<noteq> Some True then snd (register_button uname pw d) else d)"
  by (simp add: run_script_def)

lemma store_message_users [simp]:
  "user_collection (store_message r t now ss d) = user_collection d"
  by (simp add: store_message_def)

lemma run_script_submit_users:
  "user_collection (fst (run_script tsearch (Submit t now1 now2 outcome tie) (d, ss))) = user_collection d"
proof (cases "logged_in ss = Some True \<and> t \<noteq> []")
  case True
  then show ?thesis
    by (simp add: run_script_submit)
next
  case False
  then show ?thesis
    by (auto simp: run_script_def init_login_def)
qed

lemma run_script_users:
  "user_collection (fst (run_script tsearch ev (d, ss))) = user_collection d
   \<or> (\<exists>uname pw. uname \<notin> set (map u_username (user_collection d))
         \<and> user_collection (fst (run_script tsearch ev (d, ss))) =
             user_collection d @ [\<lparr>u_username = uname, u_password = hash_password pw\<rparr>])"
proof (cases ev)
  case (Register uname pw)
  show ?thesis
    unfolding Register run_script_register
    using register_button_taken [of uname d pw] register_button_fresh [of uname d pw]
    by (cases "uname \<in> set (map u_username (user_collection d))") auto
next
  case (Submit t now1 now2 outcome tie)
  then show ?thesis
    by (simp add: run_script_submit_users)
qed (simp_all add: run_script_def Let_def)

text \<open>Steps of a trace.\<close>

lemma run_snoc: "run tsearch (acts @ [a]) = step tsearch (run tsearch acts) a"
  by (simp add: run_def)

lemma run_append: "run tsearch (acts @ acts') = foldl (step tsearch) (run tsearch acts) acts'"
  by (simp add: run_def)

lemma step_Run:
  "step tsearch (d, C) (i, Run ev) =
     (if pending (C i) = None
      then (fst (run_script tsearch ev (d, session (C i))),
            C(i := (C i)\<lparr>session := snd (run_script tsearch ev (d, session (C i)))\<rparr>))
      else (d, C))"
  by (simp add: step_def Let_def case_prod_beta)

lemma step_Register_find:
  "step tsearch (d, C) (i, Register_find uname pw) =
     (if pending (C i) = None \<and> logged_in (init_login (session (C i))) \<noteq> Some True
      then (d, C(i := \<lparr>session = init_login (session (C i)),
                       pending = Some (uname, pw, register_find uname d)\<rparr>))
      else (d, C))"
  by (simp add: step_def Let_def)

lemma step_Register_insert:
  "step tsearch (d, C) (i, Register_insert) =
     (case pending (C i) of
        None \<Rightarrow> (d, C)
      | Some (uname, pw, found) \<Rightarrow>
          (snd (register_finish found uname pw d),
           C(i := \<lparr>session = init_chat (session (C i)), pending = None\<rparr>)))"
  by (simp add: step_def Let_def)

text \<open>
  The two halves of a Register run, one right after the other, are the whole run.
\<close>

lemma register_halves_make_run:
  assumes "pending (C i) = None" and "logged_in (init_login (session (C i))) \<noteq> Some True"
  shows "step tsearch (step tsearch (d, C) (i, Register_find uname pw)) (i, Register_insert) =
         step tsearch (d, C) (i, Run (Register uname pw))"
proof -
  have e: "(C i)\<lparr>session := s\<rparr> = \<lparr>session = s, pending = None\<rparr>" for s
    using assms(1) by (cases "C i") simp
  show ?thesis
    using assms
    by (simp add: step_Register_find step_Register_insert step_Run run_script_def
        register_button_def e)
qed

lemma step_users:
  "user_collection (fst (step tsearch w a)) = user_collection (fst w)
   \<or> (\<exists>uname pw. user_collection (fst (step tsearch w a)) =
         user_collection (fst w) @ [\<lparr>u_username = uname, u_password = hash_password pw\<rparr>])"
proof -
  obtain d C i act where w: "w = (d, C)" and a: "a = (i, act)"
    by (cases w, cases a) auto
  show ?thesis
  proof (cases act)
    case (Run ev)
    then show ?thesis
      using run_script_users [of tsearch ev d "session (C i)"]
      by (auto simp: w a step_Run)
  next
    case (Register_find uname pw)
    then show ?thesis
      by (simp add: w a step_Register_find)
  next
    case Register_insert
    then show ?thesis
      by (auto simp: w a step_Register_insert register_finish_users split: option.splits)
  qed
qed

lemma users_kept:
  "set (user_collection (fst w)) \<subseteq> set (user_collection (fst (foldl (step tsearch) w acts)))"
proof (induction acts arbitrary: w)
  case Nil
  then show ?case by simp
next
  case (Cons a acts)
  have "set (user_collection (fst w)) \<subseteq> set (user_collection (fst (step tsearch w a)))"
    using step_users [of tsearch w a] by auto
  then show ?case
    using Cons.IH [of "step tsearch w a"] by auto
qed

text \<open>
  While every step of the trace is a whole run, no two records of the user collection
  have the same username.
\<close>

lemma usernames_distinct_whole_runs:
  assumes "\<forall>a \<in> set acts. \<exists>ev. snd a = Run ev"
  shows "distinct (map u_username (user_collection (fst (run tsearch acts))))"
  using assms
proof (induction acts rule: rev_induct)
  case Nil
  then show ?case
    by (simp add: run_def empty_db_def)
next
  case (snoc a acts)
  obtain i ev where a: "a = (i, Run ev)"
    using snoc.prems by (cases a) auto
  obtain d C where w: "run tsearch acts = (d, C)"
    by (cases "run tsearch acts")
  have "distinct (map u_username (user_collection d))"
    using snoc by (simp add: w)
  then show ?case
    using run_script_users [of tsearch ev d "session (C i)"]
    by (auto simp: run_snoc w a step_Run)
qed

lemma find_not_None: "(find P xs \<noteq> None) = (\<exists>x \<in> set xs. P x)"
  by (auto simp: find_None_iff)

lemma authenticate_user_iff:
  "authenticate_user uname pw d \<longleftrightarrow>
     \<lparr>u_username = uname, u_password = hash_password pw\<rparr> \<in> set (user_collection d)"
proof -
  have "(u_username u = uname \<and> u_password u = h) = (u = \<lparr>u_username = uname, u_password = h\<rparr>)"
    for u :: user_data and h
    by (cases u) auto
  then show ?thesis
    unfolding authenticate_user_def Let_def find_not_None by simp
qed

text \<open>
  A record once inserted stays: the username and password of a registration
  authenticate after every trace that follows.
\<close>

lemma registered_pair_authenticates:
  assumes "authenticate_user uname pw (fst (run tsearch acts))"
  shows "authenticate_user uname pw (fst (run tsearch (acts @ acts')))"
  using assms users_kept [of "run tsearch acts" tsearch acts']
  by (auto simp: authenticate_user_iff run_append)

text \<open>
  For a username with one record, a password authenticates exactly when its digest is
  the one stored.
\<close>

lemma authenticate_single_record:
  assumes "filter (\<lambda>u. u_username u = uname) (user_collection d) =
             [\<lparr>u_username = uname, u_password = hash_password pw\<rparr>]"
  shows "authenticate_user uname pw' d \<longleftrightarrow> hash_password pw' = hash_password pw"
proof -
  have "\<lparr>u_username = uname, u_password = h\<rparr> \<in> set (user_collection d) \<longleftrightarrow>
        \<lparr>u_username = uname, u_password = h\<rparr>
          \<in> set (filter (\<lambda>u. u_username u = uname) (user_collection d))" for h
    by simp
  then show ?thesis
    unfolding authenticate_user_iff assms by auto
qed

lemma run_both_register_bob:
  "fst (run tsearch both_register_bob) =
     \<lparr>user_collection =
        [\<lparr>u_username = ''bob'', u_password = hash_password ''pw1''\<rparr>,
         \<lparr>u_username = ''bob'', u_password = hash_password ''pw2''\<rparr>],
      collection = []\<rparr>"
  by (simp add: run_def both_register_bob_def step_Register_find step_Register_insert
      new_connection_def new_session_def empty_db_def init_login_def
      register_find_def register_finish_def register_user_def)

text \<open>
  The same two registrations as whole runs, one after the other: the second is answered
  with the error and one record is stored.
\<close>

lemma run_register_bob_twice:
  "fst (run tsearch [(0, Run (Register ''bob'' ''pw1'')), (1, Run (Register ''bob'' ''pw2''))]) =
     \<lparr>user_collection = [\<lparr>u_username = ''bob'', u_password = hash_password ''pw1''\<rparr>],
      collection = []\<rparr>"
  by (simp add: run_def step_Run run_script_register register_button_def
      new_connection_def new_session_def empty_db_def init_login_def
      register_find_def register_finish_def register_user_def)

text \<open>
  C5: registering a username that already has a record fails with a rejection, no second
  record is inserted, and so at most one record exists per username in every reachable
  state of the user collection. The handler does reject a username that its lookup
  finds (\<open>register_button_taken\<close>), and the usernames stay different from one another
  while runs follow one another (\<open>usernames_distinct_whole_runs\<close>). But the lookup (line
  93) and the insert (line 72) are two calls to the store and nothing in the store keeps
  usernames unique: when two connections register \<open>bob\<close> and both look the username
  up before either inserts, both are answered with success and the collection holds two
  records for \<open>bob\<close>.
\<close>

theorem concurrent_registration_duplicates_username:
  "user_collection (fst (run word_search both_register_bob)) =
     [\<lparr>u_username = ''bob'', u_password = hash_password ''pw1''\<rparr>,
      \<lparr>u_username = ''bob'', u_password = hash_password ''pw2''\<rparr>]
   \<and> \<not> distinct (map u_username (user_collection (fst (run word_search both_register_bob))))
   \<and> register_finish (register_find ''bob'' empty_db) ''bob'' ''pw2''
        (fst (run word_search [(0, Register_find ''bob'' ''pw1''), (1, Register_find ''bob'' ''pw2''),
                               (0, Register_insert)]))
       = (Success ''Registration successful. Please log in.'',
          fst (run word_search both_register_bob))"
  by (simp add: run_both_register_bob)
     (simp add: run_def step_Register_find step_Register_insert
      new_connection_def new_session_def empty_db_def init_login_def
      register_find_def register_finish_def register_user_def)

text \<open>
  C6: for a pair created by registration, \<open>authenticate\<close> is true for the password and
  false for every other password. The first half holds after every trace
  (\<open>registered_pair_authenticates\<close>), and for a username with one record a password
  authenticates exactly when its digest is the stored one (\<open>authenticate_single_record\<close>).
  After the two registrations of \<open>bob\<close> above, which is the defect of C5, the username
  has two records, and both \<open>pw1\<close> and \<open>pw2\<close> authenticate: for the pair of \<open>bob\<close> and
  \<open>pw1\<close> the other password \<open>pw2\<close> is accepted.
\<close>

theorem concurrent_registration_two_passwords_authenticate:
  "authenticate_user ''bob'' ''pw1'' (fst (run word_search both_register_bob))
   \<and> authenticate_user ''bob'' ''pw2'' (fst (run word_search both_register_bob))
   \<and> ''pw2'' \<noteq> ''pw1''"
  by (simp add: run_both_register_bob authenticate_user_iff)

text \<open>
  C10: the record that \<open>register_user\<close> inserts holds the username and the digest of
  the password, which is \<open>hexdigest (sha256 (encode password))\<close>: no salt, nothing of
  the username or of the database. Two registrations with the same password, by any
  usernames into any databases, store the same digest; and two registrations store
  the same digest exactly when the digests of their passwords are equal.
\<close>

theorem same_password_same_digest:
  "last (user_collection (register_user uname pw d)) =
     \<lparr>u_username = uname, u_password = hexdigest (sha256 (encode pw))\<rparr>
   \<and> u_password (last (user_collection (register_user uname1 pw d1))) =
       u_password (last (user_collection (register_user uname2 pw d2)))
   \<and> (u_password (last (user_collection (register_user uname1 pw1 d1))) =
        u_password (last (user_collection (register_user uname2 pw2 d2))))
       = (hash_password pw1 = hash_password pw2)"
  by (simp add: register_user_def hash_password_def)

section \<open>From registration to reply\<close>

text \<open>
  A new user registers as \<open>bob\<close>, logs in and submits \<open>hello\<close>; the model echoes the
  prompt. The collection then holds the user's message and the echoed prompt, and the
  in-memory list the three entries of the submit. The prompt is \<open>hello hello\<close>: the
  message just stored is its own retrieved context.
\<close>

lemma register_login_submit_example:
  "collection (fst (run word_search
      [(0, Run (Register ''bob'' ''pw1'')), (0, Run (Login ''bob'' ''pw1'')),
       (0, Run (Submit ''hello'' 1500 2500 (Inr ''hello hello'') as_inserted))])) =
     [\<lparr>role = ''user'', msg_text = ''hello'', timestamp = 1000, username = Some ''bob''\<rparr>,
      \<lparr>role = ''assistant'', msg_text = ''hello hello'', timestamp = 2000, username = Some ''bob''\<rparr>]
   \<and> map v_text (view (session (snd (run word_search
      [(0, Run (Register ''bob'' ''pw1'')), (0, Run (Login ''bob'' ''pw1'')),
       (0, Run (Submit ''hello'' 1500 2500 (Inr ''hello hello'') as_inserted))]) 0))) =
     [''hello'', ''hello hello'', ''hello hello'']"
  by (simp add: run_def step_Run run_script_def submit_block_def Let_def
      register_button_def register_find_def register_finish_def register_user_def
      login_button_def authenticate_user_def
      init_login_def init_chat_def start_chat_def new_connection_def new_session_def empty_db_def
      store_message_def bson_datetime_def retrieve_relevant_messages_def limit_def sort_cursor_def
      find_messages_def send_message_def response_text_def word_search_def as_inserted_def view_def)

end
